theory Spec2Isabelle
  imports Complex_Main
begin

section \<open>Monte Carlo estimation of PI: the program of main.go\<close>

text \<open>
  Go's \<open>int\<close> is modelled as \<open>int\<close>. Its division truncates towards zero and panics
  on a zero divisor; both are written out below. The lemmas of the section on the
  partitioning show that for a positive sample count and a positive worker count every
  integer the program computes lies between 0 and the larger of the two arguments, so no
  machine width that holds the arguments can wrap.
\<close>

subsection \<open>Run-time panics and integer arithmetic\<close>

datatype go_error =
  DivideByZero
  | MakeChanSizeOutOfRange
  | SendOnClosedChannel
  | CloseOfClosedChannel
  | NegativeWaitGroupCounter
  | AllGoroutinesAsleep

definition go_quot :: "int \<Rightarrow> int \<Rightarrow> int" where
  "go_quot a b = sgn a * sgn b * (\<bar>a\<bar> div \<bar>b\<bar>)"

definition go_rem :: "int \<Rightarrow> int \<Rightarrow> int" where
  "go_rem a b = sgn a * (\<bar>a\<bar> mod \<bar>b\<bar>)"

definition go_div :: "int \<Rightarrow> int \<Rightarrow> go_error + int" where
  "go_div a b = (if b = 0 then Inl DivideByZero else Inr (go_quot a b))"

definition go_mod :: "int \<Rightarrow> int \<Rightarrow> go_error + int" where
  "go_mod a b = (if b = 0 then Inl DivideByZero else Inr (go_rem a b))"

subsection \<open>Partitioning (parallelPi, lines 62 to 74)\<close>

text \<open>
  The body of the launch loop up to the \<open>go\<close> statement: the number of points handed to
  the worker started in iteration \<open>i\<close>.
\<close>

definition currentPoints :: "int \<Rightarrow> int \<Rightarrow> int \<Rightarrow> int" where
  "currentPoints pointsPerWorker remainder i =
     (if i < remainder then pointsPerWorker + 1 else pointsPerWorker)"

text \<open>
  The launch loop \<open>for i := 0; i < numThreads; i++\<close>, collecting the argument of each
  worker it starts, in the order of the iterations.
\<close>

function launch_loop :: "int \<Rightarrow> int \<Rightarrow> int \<Rightarrow> int \<Rightarrow> int list \<Rightarrow> int list" where
  "launch_loop numThreads pointsPerWorker remainder i started =
     (if i < numThreads
      then launch_loop numThreads pointsPerWorker remainder (i + 1)
             (started @ [currentPoints pointsPerWorker remainder i])
      else started)"
  by pat_completeness auto
termination
  by (relation "measure (\<lambda>(numThreads, _, _, i, _). nat (numThreads - i))") auto

declare launch_loop.simps [simp del]

definition partition_sizes :: "int \<Rightarrow> int \<Rightarrow> go_error + int list" where
  "partition_sizes totalPoints numThreads =
     (case go_div totalPoints numThreads of
        Inl e \<Rightarrow> Inl e
      | Inr pointsPerWorker \<Rightarrow>
          (case go_mod totalPoints numThreads of
             Inl e \<Rightarrow> Inl e
           | Inr remainder \<Rightarrow>
               Inr (launch_loop numThreads pointsPerWorker remainder 0 [])))"

text \<open>The partition sizes as the specification words them.\<close>

definition spec_partition :: "nat \<Rightarrow> nat \<Rightarrow> int list" where
  "spec_partition N W =
     replicate (N mod W) (int (N div W) + 1) @ replicate (W - N mod W) (int (N div W))"

subsection \<open>The part of the Go runtime the program calls\<close>

text \<open>
  float64 arithmetic, math/rand and fmt are not part of the repository, so the model takes
  them as parameters: \<open>'f\<close> is the type of float64 values and \<open>'g\<close> the state of a
  random source. \<open>float64 rt n\<close> is the conversion \<open>float64(n)\<close>; the literals \<open>1.0\<close>,
  \<open>4.0\<close> and \<open>1000.0\<close> of the source are the conversions of 1, 4 and 1000.
  \<open>NewSource rt seed\<close> is a freshly seeded source (\<open>rand.NewSource\<close>, and
  \<open>rand.Seed\<close> for the source behind the package-level functions) and \<open>Float64 rt r\<close>
  draws one number from the source \<open>r\<close>, returning it with the advanced source.
  \<open>Sprintf_f rt n v\<close> formats \<open>v\<close> with the verb \<open>%.nf\<close> and \<open>Duration_String rt d\<close>
  formats a duration with \<open>%s\<close>.
\<close>

record 'f float_ops =
  float64 :: "int \<Rightarrow> 'f"
  fmul :: "'f \<Rightarrow> 'f \<Rightarrow> 'f"
  fadd :: "'f \<Rightarrow> 'f \<Rightarrow> 'f"
  fdiv :: "'f \<Rightarrow> 'f \<Rightarrow> 'f"
  fle :: "'f \<Rightarrow> 'f \<Rightarrow> bool"

record ('f, 'g) rand_ops = "'f float_ops" +
  NewSource :: "int \<Rightarrow> 'g"
  Float64 :: "'g \<Rightarrow> 'f \<times> 'g"

record ('f, 'g) runtime = "('f, 'g) rand_ops" +
  Sprintf_f :: "nat \<Rightarrow> 'f \<Rightarrow> string"
  Duration_String :: "int \<Rightarrow> string"

text \<open>Addition of two int64 values wraps around.\<close>

definition int64_wrap :: "int \<Rightarrow> int" where
  "int64_wrap z = (z + 2 ^ 63) mod 2 ^ 64 - 2 ^ 63"

subsection \<open>sequentialPi (lines 14 to 30)\<close>

text \<open>
  The loop of lines 18 to 26, with the loop variable \<open>i\<close>, the source \<open>r\<close> and the
  counter \<open>insideCircle\<close> as its state. It returns the counter and the source as the
  loop leaves them.
\<close>

function sequentialPi_loop ::
  "('f, 'g, 'z) rand_ops_scheme \<Rightarrow> int \<Rightarrow> int \<Rightarrow> 'g \<Rightarrow> int \<Rightarrow> int \<times> 'g" where
  "sequentialPi_loop rt numPoints i r insideCircle =
     (if i < numPoints
      then (case Float64 rt r of (x, r1) \<Rightarrow>
             (case Float64 rt r1 of (y, r2) \<Rightarrow>
                sequentialPi_loop rt numPoints (i + 1) r2
                  (if fle rt (fadd rt (fmul rt x x) (fmul rt y y)) (float64 rt 1)
                   then insideCircle + 1 else insideCircle)))
      else (insideCircle, r))"
  by pat_completeness auto
termination
  by (relation "measure (\<lambda>(_, numPoints, i, _, _). nat (numPoints - i))") auto

declare sequentialPi_loop.simps [simp del]

text \<open>\<open>now\<close> is the value \<open>time.Now().UnixNano()\<close> of line 15.\<close>

definition sequentialPi_run :: "('f, 'g, 'z) rand_ops_scheme \<Rightarrow> int \<Rightarrow> int \<Rightarrow> int \<times> 'g" where
  "sequentialPi_run rt now numPoints = sequentialPi_loop rt numPoints 0 (NewSource rt now) 0"

definition sequentialPi :: "('f, 'g, 'z) rand_ops_scheme \<Rightarrow> int \<Rightarrow> int \<Rightarrow> 'f" where
  "sequentialPi rt now numPoints =
     (case sequentialPi_run rt now numPoints of (insideCircle, _) \<Rightarrow>
        fdiv rt (fmul rt (float64 rt 4) (float64 rt insideCircle)) (float64 rt numPoints))"

subsection \<open>worker (lines 34 to 53)\<close>

definition worker_seed :: "int \<Rightarrow> int \<Rightarrow> int" where
  "worker_seed now numPoints = int64_wrap (now + numPoints)"

function worker_loop ::
  "('f, 'g, 'z) rand_ops_scheme \<Rightarrow> int \<Rightarrow> int \<Rightarrow> 'g \<Rightarrow> int \<Rightarrow> int \<times> 'g" where
  "worker_loop rt numPoints i r insideCircle =
     (if i < numPoints
      then (case Float64 rt r of (x, r1) \<Rightarrow>
             (case Float64 rt r1 of (y, r2) \<Rightarrow>
                worker_loop rt numPoints (i + 1) r2
                  (if fle rt (fadd rt (fmul rt x x) (fmul rt y y)) (float64 rt 1)
                   then insideCircle + 1 else insideCircle)))
      else (insideCircle, r))"
  by pat_completeness auto
termination
  by (relation "measure (\<lambda>(_, numPoints, i, _, _). nat (numPoints - i))") auto

declare worker_loop.simps [simp del]

text \<open>
  What one call of worker does before its send: \<open>now\<close> is the clock value it reads on
  line 38. The first component is the value it sends on \<open>resultChan\<close>.
\<close>

definition worker_run :: "('f, 'g, 'z) rand_ops_scheme \<Rightarrow> int \<Rightarrow> int \<Rightarrow> int \<times> 'g" where
  "worker_run rt now numPoints =
     worker_loop rt numPoints 0 (NewSource rt (worker_seed now numPoints)) 0"

definition worker :: "('f, 'g, 'z) rand_ops_scheme \<Rightarrow> int \<Rightarrow> int \<Rightarrow> int" where
  "worker rt now numPoints = fst (worker_run rt now numPoints)"

subsection \<open>The goroutines of parallelPi (lines 66 to 93)\<close>

text \<open>
  One call of parallelPi runs the calling goroutine, one goroutine per worker and the
  goroutine that closes the channel. The model is an interleaving of their steps.

  The calling goroutine is at \<open>Launch i\<close> (at the head of the launch loop with loop
  variable \<open>i\<close>), at \<open>Collect\<close> (in the loop over \<open>resultChan\<close>) or has \<open>Returned\<close>
  from that loop. A worker goroutine carries the argument \<open>pts\<close> it was started with and
  is \<open>Ready\<close> (started, its result not yet sent), \<open>Sent\<close> (result sent,
  \<open>wg.Done\<close> still to run) or \<open>Finished\<close>. The closing goroutine is \<open>NotStarted\<close>,
  \<open>Waiting\<close> in \<open>wg.Wait\<close>, or \<open>Closed\<close> once it has closed the channel.
\<close>

datatype main_pc = Launch int | Collect | Returned
datatype wstatus = Ready | Sent | Finished
datatype cstatus = NotStarted | Waiting | Closed
datatype thread = MainT | WorkerT nat | CloserT

record pstate =
  pc :: main_pc
  workers :: "(int \<times> wstatus) list"
  closer :: cstatus
  wg :: int
  resultChan :: "int list"
  chanClosed :: bool
  totalInside :: int
  failure :: "go_error option"

text \<open>
  One step of the calling goroutine: an iteration of the launch loop (lines 70 to 81:
  \<open>wg.Add(1)\<close> and the \<open>go\<close> statement), the exit of that loop with the \<open>go\<close>
  statement of line 84, one receive of the loop of lines 91 to 93, or the exit of that loop
  once the channel is closed and empty.
\<close>

definition main_step :: "int \<Rightarrow> int \<Rightarrow> int \<Rightarrow> pstate \<Rightarrow> pstate" where
  "main_step numThreads pointsPerWorker remainder s =
     (case pc s of
        Launch i \<Rightarrow>
          if i < numThreads
          then s\<lparr>pc := Launch (i + 1),
                 workers := workers s @ [(currentPoints pointsPerWorker remainder i, Ready)],
                 wg := wg s + 1\<rparr>
          else s\<lparr>pc := Collect, closer := Waiting\<rparr>
      | Collect \<Rightarrow>
          (case resultChan s of
             count # rest \<Rightarrow> s\<lparr>resultChan := rest, totalInside := totalInside s + count\<rparr>
           | [] \<Rightarrow> if chanClosed s then s\<lparr>pc := Returned\<rparr> else s)
      | Returned \<Rightarrow> s)"

text \<open>
  One step of worker \<open>j\<close>: computing its count and sending it (\<open>res j pts\<close> is the
  count that worker \<open>j\<close> computes for \<open>pts\<close> points; a send on a closed channel panics,
  a send on a full channel blocks), or the deferred \<open>wg.Done\<close>.
\<close>

definition worker_step :: "(nat \<Rightarrow> int \<Rightarrow> int) \<Rightarrow> int \<Rightarrow> nat \<Rightarrow> pstate \<Rightarrow> pstate" where
  "worker_step res numThreads j s =
     (if length (workers s) \<le> j then s
      else (case workers s ! j of
        (pts, Ready) \<Rightarrow>
          if chanClosed s then s\<lparr>failure := Some SendOnClosedChannel\<rparr>
          else if int (length (resultChan s)) < numThreads
          then s\<lparr>workers := (workers s)[j := (pts, Sent)],
                 resultChan := resultChan s @ [res j pts]\<rparr>
          else s
      | (pts, Sent) \<Rightarrow>
          if wg s - 1 < 0 then s\<lparr>failure := Some NegativeWaitGroupCounter\<rparr>
          else s\<lparr>workers := (workers s)[j := (pts, Finished)], wg := wg s - 1\<rparr>
      | (pts, Finished) \<Rightarrow> s))"

text \<open>The closing goroutine: \<open>wg.Wait\<close> returns when the counter is 0, then \<open>close\<close>.\<close>

definition closer_step :: "pstate \<Rightarrow> pstate" where
  "closer_step s =
     (if closer s = Waiting \<and> wg s = 0
      then (if chanClosed s then s\<lparr>failure := Some CloseOfClosedChannel\<rparr>
            else s\<lparr>closer := Closed, chanClosed := True\<rparr>)
      else s)"

fun step :: "(nat \<Rightarrow> int \<Rightarrow> int) \<Rightarrow> int \<Rightarrow> int \<Rightarrow> int \<Rightarrow> thread \<Rightarrow> pstate \<Rightarrow> pstate" where
  "step res numThreads pointsPerWorker remainder MainT s =
     main_step numThreads pointsPerWorker remainder s"
| "step res numThreads pointsPerWorker remainder (WorkerT j) s = worker_step res numThreads j s"
| "step res numThreads pointsPerWorker remainder CloserT s = closer_step s"

text \<open>The goroutines that can take a step; none can once the program has panicked.\<close>

definition main_ready :: "pstate \<Rightarrow> bool" where
  "main_ready s =
     (case pc s of
        Launch i \<Rightarrow> True
      | Collect \<Rightarrow> resultChan s \<noteq> [] \<or> chanClosed s
      | Returned \<Rightarrow> False)"

definition worker_ready :: "int \<Rightarrow> pstate \<Rightarrow> nat \<Rightarrow> bool" where
  "worker_ready numThreads s j =
     (case snd (workers s ! j) of
        Ready \<Rightarrow> chanClosed s \<or> int (length (resultChan s)) < numThreads
      | Sent \<Rightarrow> True
      | Finished \<Rightarrow> False)"

definition runnable :: "int \<Rightarrow> pstate \<Rightarrow> thread list" where
  "runnable numThreads s =
     (if failure s \<noteq> None then []
      else (if main_ready s then [MainT] else [])
         @ map WorkerT (filter (worker_ready numThreads s) [0..<length (workers s)])
         @ (if closer s = Waiting \<and> wg s = 0 then [CloserT] else []))"

text \<open>A bound on the number of steps that are left, for the termination of \<open>run\<close>.\<close>

fun pc_weight :: "int \<Rightarrow> main_pc \<Rightarrow> nat" where
  "pc_weight numThreads (Launch i) = 4 * nat (numThreads - i) + 3"
| "pc_weight numThreads Collect = 1"
| "pc_weight numThreads Returned = 0"

fun wstatus_weight :: "wstatus \<Rightarrow> nat" where
  "wstatus_weight Ready = 3"
| "wstatus_weight Sent = 1"
| "wstatus_weight Finished = 0"

definition weight :: "int \<Rightarrow> pstate \<Rightarrow> nat" where
  "weight numThreads s =
     pc_weight numThreads (pc s)
     + sum_list (map (wstatus_weight \<circ> snd) (workers s))
     + (if closer s = Waiting then 1 else 0)
     + length (resultChan s)
     + (if failure s = None then 1 else 0)"

text \<open>
  A run under a scheduler: \<open>sched k\<close> chooses among the runnable goroutines at the
  \<open>k\<close>-th step. The run ends when the calling goroutine has left the loop over the
  channel, or when no goroutine can move.
\<close>

function run ::
  "(nat \<Rightarrow> int \<Rightarrow> int) \<Rightarrow> int \<Rightarrow> int \<Rightarrow> int \<Rightarrow> (nat \<Rightarrow> nat) \<Rightarrow> nat \<Rightarrow> pstate \<Rightarrow> pstate" where
  "run res numThreads pointsPerWorker remainder sched k s =
     (if pc s = Returned \<or> runnable numThreads s = [] then s
      else run res numThreads pointsPerWorker remainder sched (k + 1)
             (step res numThreads pointsPerWorker remainder
                (runnable numThreads s ! (sched k mod length (runnable numThreads s))) s))"
  by pat_completeness auto
termination
proof (relation "measure (\<lambda>(res, numThreads, pointsPerWorker, remainder, sched, k, s).
    weight numThreads s)")
  show "wf (measure (\<lambda>(res, numThreads, pointsPerWorker, remainder, sched, k, s).
      weight numThreads s))"
    by simp
next
  fix res :: "nat \<Rightarrow> int \<Rightarrow> int" and numThreads pointsPerWorker remainder :: int
    and sched :: "nat \<Rightarrow> nat" and k :: nat and s :: pstate
  assume "\<not> (pc s = Returned \<or> runnable numThreads s = [])"
  then have mem: "runnable numThreads s ! (sched k mod length (runnable numThreads s))
      \<in> set (runnable numThreads s)"
    by simp
  have upd: "j < length xs \<Longrightarrow>
      sum_list (map f (xs[j := x])) + f (xs ! j) = sum_list (map f xs) + (f x :: nat)"
    for j x f and xs :: "(int \<times> wstatus) list"
  proof (induction xs arbitrary: j)
    case Nil
    then show ?case by simp
  next
    case (Cons a xs)
    then show ?case by (cases j) (auto simp: algebra_simps)
  qed
  have less: "weight numThreads (step res numThreads pointsPerWorker remainder t s)
      < weight numThreads s" if t: "t \<in> set (runnable numThreads s)" for t
  proof -
    from t have f: "failure s = None"
      by (auto simp: runnable_def split: if_splits)
    show ?thesis
    proof (cases t)
      case MainT
      with t f have "main_ready s" by (auto simp: runnable_def split: if_splits)
      then show ?thesis using MainT f
        by (cases "pc s"; cases "resultChan s")
           (auto simp: main_ready_def main_step_def weight_def nat_diff_distrib)
    next
      case (WorkerT j)
      with t f have j: "j < length (workers s)" "worker_ready numThreads s j"
        by (auto simp: runnable_def split: if_splits)
      obtain pts st where st: "workers s ! j = (pts, st)" by (cases "workers s ! j")
      have u: "sum_list (map (wstatus_weight \<circ> snd) ((workers s)[j := x])) + wstatus_weight st
          = sum_list (map (wstatus_weight \<circ> snd) (workers s)) + wstatus_weight (snd x)" for x
        using upd [OF j(1), of "wstatus_weight \<circ> snd"] st by simp
      show ?thesis
      proof (cases st)
        case Ready
        then show ?thesis using WorkerT j st f u [of "(pts, Sent)"]
          by (auto simp: worker_step_def worker_ready_def weight_def)
      next
        case Sent
        then show ?thesis using WorkerT j st f u [of "(pts, Finished)"]
          by (auto simp: worker_step_def worker_ready_def weight_def)
      next
        case Finished
        then show ?thesis using j st by (simp add: worker_ready_def)
      qed
    next
      case CloserT
      with t f show ?thesis
        by (auto simp: runnable_def closer_step_def weight_def split: if_splits)
    qed
  qed
  show "((res, numThreads, pointsPerWorker, remainder, sched, k + 1,
        step res numThreads pointsPerWorker remainder
          (runnable numThreads s ! (sched k mod length (runnable numThreads s))) s),
       (res, numThreads, pointsPerWorker, remainder, sched, k, s))
      \<in> measure (\<lambda>(res, numThreads, pointsPerWorker, remainder, sched, k, s).
          weight numThreads s)"
    using less [OF mem] by simp
qed

declare run.simps [simp del]

subsection \<open>parallelPi (lines 56 to 100)\<close>

text \<open>
  What one call of parallelPi takes from its environment: the scheduler of its
  goroutines, the clock value that worker \<open>j\<close> reads on line 38, and the duration
  \<open>time.Since(startTime)\<close> of line 95.
\<close>

record run_env =
  schedule :: "nat \<Rightarrow> nat"
  workerNow :: "nat \<Rightarrow> int"
  sinceStart :: int

definition initial :: pstate where
  "initial = \<lparr>pc = Launch 0, workers = [], closer = NotStarted, wg = 0, resultChan = [],
     chanClosed = False, totalInside = 0, failure = None\<rparr>"

text \<open>
  \<open>runtime.GOMAXPROCS\<close> (line 60) changes no value the function computes and is left
  out. The division and the remainder of lines 63 and 64 panic on a zero divisor, and
  \<open>make\<close> (line 66) on a negative capacity. If the goroutines came to a halt before the
  loop over the channel ended, the Go runtime would stop the program (all goroutines
  asleep).
\<close>

definition parallelPi ::
  "('f, 'g, 'z) rand_ops_scheme \<Rightarrow> run_env \<Rightarrow> int \<Rightarrow> int \<Rightarrow> go_error + 'f \<times> int" where
  "parallelPi rt env totalPoints numThreads =
     (case go_div totalPoints numThreads of
        Inl e \<Rightarrow> Inl e
      | Inr pointsPerWorker \<Rightarrow>
          (case go_mod totalPoints numThreads of
             Inl e \<Rightarrow> Inl e
           | Inr remainder \<Rightarrow>
               if numThreads < 0 then Inl MakeChanSizeOutOfRange
               else (let s = run (\<lambda>j pts. worker rt (workerNow env j) pts)
                               numThreads pointsPerWorker remainder (schedule env) 0 initial
                     in case failure s of
                          Some e \<Rightarrow> Inl e
                        | None \<Rightarrow>
                            if pc s = Returned
                            then Inr (fdiv rt (fmul rt (float64 rt 4) (float64 rt (totalInside s)))
                                        (float64 rt totalPoints),
                                      sinceStart env)
                            else Inl AllGoroutinesAsleep)))"

text \<open>
  The counts the workers of one call report, in the order in which the workers are
  started: worker \<open>j\<close> is given the \<open>j\<close>-th partition.
\<close>

definition worker_results :: "('f, 'g, 'z) rand_ops_scheme \<Rightarrow> run_env \<Rightarrow> int list \<Rightarrow> int list" where
  "worker_results rt env ps = map (\<lambda>j. worker rt (workerNow env j) (ps ! j)) [0..<length ps]"

text \<open>The estimate the specification derives from a total count.\<close>

definition pi_estimate :: "('f, 'z) float_ops_scheme \<Rightarrow> int \<Rightarrow> int \<Rightarrow> 'f" where
  "pi_estimate rt inside N = fdiv rt (fmul rt (float64 rt 4) (float64 rt inside)) (float64 rt N)"

subsection \<open>The specification's vocabulary for samples\<close>

text \<open>
  The Point Classifier of the specification, in the arithmetic of the program: the sum of
  the two squares, as float64 computes it, compared with 1.0.
\<close>

definition in_unit_circle :: "('f, 'z) float_ops_scheme \<Rightarrow> 'f \<times> 'f \<Rightarrow> bool" where
  "in_unit_circle rt p = fle rt (fadd rt (fmul rt (fst p) (fst p)) (fmul rt (snd p) (snd p))) (float64 rt 1)"

text \<open>
  The first \<open>n\<close> samples a source yields, each sample two draws (x first), and the
  source after them.
\<close>

fun draw_samples :: "('f, 'g, 'z) rand_ops_scheme \<Rightarrow> nat \<Rightarrow> 'g \<Rightarrow> ('f \<times> 'f) list \<times> 'g" where
  "draw_samples rt 0 r = ([], r)"
| "draw_samples rt (Suc n) r =
     (case Float64 rt r of (x, r1) \<Rightarrow>
        (case Float64 rt r1 of (y, r2) \<Rightarrow>
           (case draw_samples rt n r2 of (ps, r3) \<Rightarrow> ((x, y) # ps, r3))))"

definition inside_count :: "('f, 'z) float_ops_scheme \<Rightarrow> ('f \<times> 'f) list \<Rightarrow> int" where
  "inside_count rt ps = int (length (filter (in_unit_circle rt) ps))"

subsection \<open>An invariant of the goroutines\<close>

text \<open>
  \<open>delivered\<close> adds up the counts of the workers that have sent, \<open>pending\<close> counts the
  workers that have not run \<open>wg.Done\<close>, \<open>sent_count\<close> the workers that have sent. The
  invariant ties the WaitGroup counter, the channel and the running total to them.
\<close>

definition delivered :: "(nat \<Rightarrow> int \<Rightarrow> int) \<Rightarrow> (int \<times> wstatus) list \<Rightarrow> int" where
  "delivered res ws = (\<Sum>j<length ws. if snd (ws ! j) = Ready then 0 else res j (fst (ws ! j)))"

definition pending :: "(int \<times> wstatus) list \<Rightarrow> int" where
  "pending ws = sum_list (map (\<lambda>w. if snd w = Finished then 0 else 1) ws)"

definition sent_count :: "(int \<times> wstatus) list \<Rightarrow> int" where
  "sent_count ws = sum_list (map (\<lambda>w. if snd w = Ready then 0 else 1) ws)"

definition pc_inv :: "int \<Rightarrow> pstate \<Rightarrow> bool" where
  "pc_inv W s =
     (case pc s of
        Launch i \<Rightarrow> 0 \<le> i \<and> i \<le> W \<and> int (length (workers s)) = i \<and> closer s = NotStarted
      | Collect \<Rightarrow> int (length (workers s)) = W \<and> closer s \<noteq> NotStarted
      | Returned \<Rightarrow> int (length (workers s)) = W \<and> closer s = Closed \<and> resultChan s = [])"

definition inv :: "(nat \<Rightarrow> int \<Rightarrow> int) \<Rightarrow> int \<Rightarrow> int \<Rightarrow> int \<Rightarrow> pstate \<Rightarrow> bool" where
  "inv res W q r s =
     (failure s = None
      \<and> pc_inv W s
      \<and> (\<forall>j < length (workers s). fst (workers s ! j) = currentPoints q r (int j))
      \<and> wg s = pending (workers s)
      \<and> (chanClosed s \<longleftrightarrow> closer s = Closed)
      \<and> (closer s = Closed \<longrightarrow> (\<forall>w \<in> set (workers s). snd w = Finished))
      \<and> totalInside s + sum_list (resultChan s) = delivered res (workers s)
      \<and> int (length (resultChan s)) \<le> sent_count (workers s))"

subsection \<open>IEEE 754 binary64 as an instance of the float64 parameters\<close>

text \<open>
  Go's float64 is the binary64 format of IEEE 754 with rounding to nearest, ties to even.
  A finite value is the rational number it denotes: an integer multiple \<open>m * 2^e\<close> with
  \<open>\<bar>m\<bar> < 2^53\<close> and \<open>- 1074 \<le> e \<le> 971\<close>. The two zeros are not told apart; the
  only divisor the program forms is the conversion of an int, which is never the negative
  zero, so a zero divisor is taken as positive. The instance serves to evaluate the model
  on concrete samples.
\<close>

datatype b64 = Finite rat | PosInf | NegInf | NaN

function bit_length :: "int \<Rightarrow> int" where
  "bit_length n = (if n \<le> 0 then 0 else 1 + bit_length (n div 2))"
  by pat_completeness auto
termination
  by (relation "measure nat") auto

declare bit_length.simps [simp del]

definition pow2 :: "int \<Rightarrow> rat" where
  "pow2 e = (if 0 \<le> e then 2 ^ nat e else 1 / 2 ^ nat (- e))"

text \<open>For \<open>q > 0\<close>, the \<open>k\<close> with \<open>2^k \<le> q < 2^(k+1)\<close>.\<close>

definition floor_log2 :: "rat \<Rightarrow> int" where
  "floor_log2 q = (if 1 \<le> q then bit_length \<lfloor>q\<rfloor> - 1 else - bit_length (\<lceil>1 / q\<rceil> - 1))"

definition round_half_even :: "rat \<Rightarrow> int" where
  "round_half_even q =
     (let f = \<lfloor>q\<rfloor>; d = q - of_int f
      in if d < 1 / 2 then f else if 1 / 2 < d then f + 1 else if even f then f else f + 1)"

text \<open>
  Rounding an exact result to binary64: the spacing of the format at \<open>\<bar>q\<bar>\<close> is
  \<open>2^e\<close>, with \<open>e\<close> the exponent of \<open>\<bar>q\<bar>\<close> less 52 and never below \<open>- 1074\<close>
  (subnormal numbers); a result of magnitude \<open>2^1024\<close> or more after rounding overflows.
\<close>

definition b64_round :: "rat \<Rightarrow> b64" where
  "b64_round q =
     (if q = 0 then Finite 0
      else (let e = max (floor_log2 \<bar>q\<bar> - 52) (- 1074);
                m = round_half_even (\<bar>q\<bar> / pow2 e);
                v = of_int m * pow2 e
            in if 2 ^ 1024 \<le> v then (if 0 < q then PosInf else NegInf)
               else Finite (sgn q * v)))"

fun b64_sign :: "b64 \<Rightarrow> rat" where
  "b64_sign (Finite a) = sgn a"
| "b64_sign PosInf = 1"
| "b64_sign NegInf = - 1"
| "b64_sign NaN = 0"

definition b64_inf :: "rat \<Rightarrow> b64" where
  "b64_inf sg = (if sg = 0 then NaN else if 0 < sg then PosInf else NegInf)"

fun b64_mul :: "b64 \<Rightarrow> b64 \<Rightarrow> b64" where
  "b64_mul (Finite a) (Finite b) = b64_round (a * b)"
| "b64_mul NaN y = NaN"
| "b64_mul x NaN = NaN"
| "b64_mul x y = b64_inf (b64_sign x * b64_sign y)"

fun b64_add :: "b64 \<Rightarrow> b64 \<Rightarrow> b64" where
  "b64_add (Finite a) (Finite b) = b64_round (a + b)"
| "b64_add NaN y = NaN"
| "b64_add x NaN = NaN"
| "b64_add PosInf NegInf = NaN"
| "b64_add NegInf PosInf = NaN"
| "b64_add (Finite a) y = y"
| "b64_add x y = x"

fun b64_div :: "b64 \<Rightarrow> b64 \<Rightarrow> b64" where
  "b64_div (Finite a) (Finite b) = (if b = 0 then b64_inf (sgn a) else b64_round (a / b))"
| "b64_div NaN y = NaN"
| "b64_div x NaN = NaN"
| "b64_div (Finite a) y = Finite 0"
| "b64_div x (Finite b) = b64_inf (b64_sign x * (if b < 0 then - 1 else 1))"
| "b64_div x y = NaN"

fun b64_le :: "b64 \<Rightarrow> b64 \<Rightarrow> bool" where
  "b64_le (Finite a) (Finite b) = (a \<le> b)"
| "b64_le NaN y = False"
| "b64_le x NaN = False"
| "b64_le NegInf y = True"
| "b64_le x PosInf = True"
| "b64_le x y = False"

definition binary64 :: "b64 float_ops" where
  "binary64 = \<lparr>float64 = (\<lambda>n. b64_round (of_int n)), fmul = b64_mul, fadd = b64_add,
     fdiv = b64_div, fle = b64_le\<rparr>"

text \<open>
  A random source that replays a given list of numbers, whatever the seed, and yields
  zeros once the list is used up. It stands in for math/rand where the model is evaluated
  on concrete samples.
\<close>

definition replay :: "b64 list \<Rightarrow> (b64, b64 list) rand_ops" where
  "replay xs = \<lparr>float64 = (\<lambda>n. b64_round (of_int n)), fmul = b64_mul, fadd = b64_add,
     fdiv = b64_div, fle = b64_le,
     NewSource = (\<lambda>seed. xs),
     Float64 = (\<lambda>r. case r of [] \<Rightarrow> (Finite 0, []) | v # vs \<Rightarrow> (v, vs))\<rparr>"

subsection \<open>Facts about the partitioning\<close>

lemma go_quot_nonneg: "0 \<le> a \<Longrightarrow> 0 < b \<Longrightarrow> go_quot a b = a div b"
  by (simp add: go_quot_def sgn_if)

lemma go_rem_nonneg: "0 \<le> a \<Longrightarrow> 0 < b \<Longrightarrow> go_rem a b = a mod b"
  by (simp add: go_rem_def sgn_if)

lemma launch_loop_map:
  "0 \<le> i \<Longrightarrow> i \<le> W \<Longrightarrow>
   launch_loop W q r i started =
     started @ map (\<lambda>k. currentPoints q r (int k)) [nat i..<nat W]"
proof (induction W q r i started rule: launch_loop.induct)
  case (1 numThreads pointsPerWorker remainder i started)
  show ?case
  proof (cases "i < numThreads")
    case True
    have "[nat i..<nat numThreads] = nat i # [nat (i + 1)..<nat numThreads]"
      using True "1.prems" by (simp add: upt_conv_Cons nat_add_distrib)
    then show ?thesis
      using True "1.prems" "1.IH" [OF True]
      by (subst launch_loop.simps) simp
  next
    case False
    then show ?thesis
      using "1.prems" by (subst launch_loop.simps) simp
  qed
qed

lemma currentPoints_map:
  assumes r: "0 \<le> r" "r \<le> W"
  shows "map (\<lambda>k. currentPoints q r (int k)) [0..<nat W] =
     replicate (nat r) (q + 1) @ replicate (nat (W - r)) q"
proof -
  have "nat W = nat r + nat (W - r)" using r by simp
  then have split: "[0..<nat W] = [0..<nat r] @ [nat r..<nat r + nat (W - r)]"
    by (simp only: upt_add_eq_append [OF le0])
  have a: "map (\<lambda>k. currentPoints q r (int k)) [0..<nat r] = replicate (nat r) (q + 1)"
    by (rule nth_equalityI) (use r in \<open>auto simp: currentPoints_def\<close>)
  have b: "map (\<lambda>k. currentPoints q r (int k)) [nat r..<nat r + nat (W - r)] =
      replicate (nat (W - r)) q"
    by (rule nth_equalityI) (use r in \<open>auto simp: currentPoints_def\<close>)
  show ?thesis unfolding split map_append a b ..
qed

lemma partition_sizes_eq:
  assumes "1 \<le> N" "1 \<le> W"
  shows "partition_sizes N W =
     Inr (replicate (nat (N mod W)) (N div W + 1) @ replicate (nat (W - N mod W)) (N div W))"
proof -
  have "0 \<le> N mod W" "N mod W \<le> W" using assms by (simp_all add: less_imp_le)
  then show ?thesis
    using assms launch_loop_map [of 0 W "N div W" "N mod W" "[]"]
    by (simp add: partition_sizes_def go_div_def go_mod_def go_quot_nonneg go_rem_nonneg
        currentPoints_map)
qed

lemma sum_list_replicate_int: "sum_list (replicate n (x::int)) = int n * x"
  by (induction n) (simp_all add: algebra_simps)

text \<open>
  Claim C1. For a total sample count \<open>N \<ge> 1\<close> and a worker count \<open>W \<ge> 1\<close> the launch
  loop of parallelPi hands out \<open>W\<close> partition sizes: the first \<open>N mod W\<close> of them are
  \<open>N div W + 1\<close>, the others \<open>N div W\<close> (the list the specification describes), and
  they add up to exactly \<open>N\<close>.
\<close>

theorem partition_sizes_correct:
  assumes "1 \<le> N" "1 \<le> W"
  shows "\<exists>ps. partition_sizes N W = Inr ps
           \<and> ps = spec_partition (nat N) (nat W)
           \<and> length ps = nat W
           \<and> sum_list ps = N
           \<and> (\<forall>i < nat W. ps ! i = (if int i < N mod W then N div W + 1 else N div W))"
proof -
  let ?ps = "replicate (nat (N mod W)) (N div W + 1) @ replicate (nat (W - N mod W)) (N div W)"
  have m: "0 \<le> N mod W" "N mod W < W" using assms by simp_all
  have eq: "partition_sizes N W = Inr ?ps" by (rule partition_sizes_eq [OF assms])
  have sp: "?ps = spec_partition (nat N) (nat W)"
  proof -
    have "int (nat N mod nat W) = N mod W" "int (nat N div nat W) = N div W"
      using assms by (simp_all add: zmod_int zdiv_int)
    moreover have "nat W - nat N mod nat W = nat (W - N mod W)"
      using assms m by (simp add: nat_diff_distrib nat_mod_distrib)
    moreover have "nat N mod nat W = nat (N mod W)"
      using assms by (simp add: nat_mod_distrib)
    ultimately show ?thesis by (simp add: spec_partition_def)
  qed
  have len: "length ?ps = nat W" using m by simp
  have "sum_list ?ps = (N mod W) * (N div W + 1) + (W - N mod W) * (N div W)"
    using m by (simp add: sum_list_replicate_int)
  also have "\<dots> = W * (N div W) + N mod W" by (simp add: algebra_simps)
  also have "\<dots> = N" by simp
  finally have sum: "sum_list ?ps = N" .
  have nth: "\<forall>i < nat W. ?ps ! i = (if int i < N mod W then N div W + 1 else N div W)"
    using m by (auto simp: nth_append)
  show ?thesis
  proof (intro exI conjI)
    show "partition_sizes N W = Inr ?ps" by (rule eq)
  qed (rule sp len sum nth)+
qed

lemma partition_sizes_10_3: "partition_sizes 10 3 = Inr [4, 3, 3]"
  by (simp add: partition_sizes_def go_div_def go_mod_def go_quot_def go_rem_def
      launch_loop.simps currentPoints_def)

theorem partition_sizes_correct_witness:
  "(1::int) \<le> 10 \<and> (1::int) \<le> 3
   \<and> partition_sizes 10 3 = Inr [4, 3, 3]
   \<and> sum_list [4, 3, 3 :: int] = 10
   \<and> spec_partition 10 3 = [4, 3, 3]"
proof -
  obtain ps where ps: "partition_sizes 10 3 = Inr ps" "ps = spec_partition (nat 10) (nat 3)"
      "sum_list ps = 10"
    using partition_sizes_correct [of 10 3] by auto
  have "ps = [4, 3, 3]" using ps(1) by (simp add: partition_sizes_10_3)
  then show ?thesis using ps by (simp add: partition_sizes_10_3)
qed

subsection \<open>Facts about the goroutines\<close>

lemma sum_list_map_update_int:
  "j < length xs \<Longrightarrow>
   sum_list (map f (xs[j := x])) = sum_list (map f xs) - f (xs ! j) + (f x :: int)"
proof (induction xs arbitrary: j)
  case Nil
  then show ?case by simp
next
  case (Cons a xs)
  then show ?case by (cases j) auto
qed

lemma pending_update:
  "j < length ws \<Longrightarrow> ws ! j = (p, st) \<Longrightarrow>
   pending (ws[j := (p', st')]) =
     pending ws - (if st = Finished then 0 else 1) + (if st' = Finished then 0 else 1)"
  by (simp add: pending_def sum_list_map_update_int)

lemma sent_count_update:
  "j < length ws \<Longrightarrow> ws ! j = (p, st) \<Longrightarrow>
   sent_count (ws[j := (p', st')]) =
     sent_count ws - (if st = Ready then 0 else 1) + (if st' = Ready then 0 else 1)"
  by (simp add: sent_count_def sum_list_map_update_int)

lemma delivered_update:
  assumes "j < length ws" "ws ! j = (p, st)"
  shows "delivered res (ws[j := (p, st')]) =
     delivered res ws - (if st = Ready then 0 else res j p) + (if st' = Ready then 0 else res j p)"
proof -
  let ?g = "\<lambda>ws i. if snd (ws ! i) = Ready then 0 else res i (fst (ws ! i))"
  have fin: "finite {..<length ws}" and mem: "j \<in> {..<length ws}" using assms by simp_all
  have "delivered res (ws[j := (p, st')]) = (\<Sum>i<length ws. ?g (ws[j := (p, st')]) i)"
    by (simp add: delivered_def)
  also have "\<dots> = ?g (ws[j := (p, st')]) j + (\<Sum>i\<in>{..<length ws} - {j}. ?g (ws[j := (p, st')]) i)"
    by (rule sum.remove [OF fin mem])
  also have "(\<Sum>i\<in>{..<length ws} - {j}. ?g (ws[j := (p, st')]) i) = (\<Sum>i\<in>{..<length ws} - {j}. ?g ws i)"
    by (rule sum.cong) auto
  also have "\<dots> = (\<Sum>i<length ws. ?g ws i) - ?g ws j"
    using sum.remove [OF fin mem, of "?g ws"] by simp
  finally show ?thesis using assms by (simp add: delivered_def)
qed

lemma delivered_append_Ready: "delivered res (ws @ [(p, Ready)]) = delivered res ws"
proof -
  have "(\<Sum>j<length ws. if snd ((ws @ [(p, Ready)]) ! j) = Ready then 0
           else res j (fst ((ws @ [(p, Ready)]) ! j)))
      = (\<Sum>j<length ws. if snd (ws ! j) = Ready then 0 else res j (fst (ws ! j)))"
    by (rule sum.cong) (simp_all add: nth_append)
  then show ?thesis by (simp add: delivered_def)
qed

lemma pending_append: "pending (ws @ [(p, Ready)]) = pending ws + 1"
  by (simp add: pending_def)

lemma sent_count_append: "sent_count (ws @ [(p, Ready)]) = sent_count ws"
  by (simp add: sent_count_def)

lemma pending_nonneg: "0 \<le> pending ws"
  by (induction ws) (simp_all add: pending_def)

lemma pending_zero: "pending ws = 0 \<Longrightarrow> w \<in> set ws \<Longrightarrow> snd w = Finished"
proof (induction ws)
  case Nil
  then show ?case by simp
next
  case (Cons a ws)
  have "0 \<le> pending ws" by (rule pending_nonneg)
  with Cons show ?case by (auto simp: pending_def split: if_splits)
qed

lemma pending_nonzero: "pending ws \<noteq> 0 \<Longrightarrow> \<exists>w \<in> set ws. snd w \<noteq> Finished"
  by (induction ws) (auto simp: pending_def split: if_splits)

lemma pending_pos: "w \<in> set ws \<Longrightarrow> snd w \<noteq> Finished \<Longrightarrow> 0 < pending ws"
  using pending_zero [of ws w] pending_nonneg [of ws] by (cases "pending ws = 0") auto

lemma sent_count_le: "sent_count ws \<le> int (length ws)"
  by (induction ws) (simp_all add: sent_count_def)

lemma sent_count_less: "w \<in> set ws \<Longrightarrow> snd w = Ready \<Longrightarrow> sent_count ws < int (length ws)"
proof (induction ws)
  case Nil
  then show ?case by simp
next
  case (Cons a ws)
  have "sent_count ws \<le> int (length ws)" by (rule sent_count_le)
  with Cons show ?case by (auto simp: sent_count_def)
qed

lemma inv_initial: "0 \<le> W \<Longrightarrow> inv res W q r initial"
  by (simp add: inv_def pc_inv_def initial_def pending_def delivered_def sent_count_def)


lemma inv_main_step:
  assumes i: "inv res W q r s" and rdy: "main_ready s"
  shows "inv res W q r (main_step W q r s)"
proof (cases "pc s")
  case (Launch i)
  show ?thesis
  proof (cases "i < W")
    case True
    have fst: "\<forall>j < length (workers s @ [(currentPoints q r i, Ready)]).
        fst ((workers s @ [(currentPoints q r i, Ready)]) ! j) = currentPoints q r (int j)"
      using i Launch by (auto simp: inv_def pc_inv_def nth_append less_Suc_eq)
    show ?thesis
      using i Launch True fst
      by (simp add: inv_def pc_inv_def main_step_def pending_append delivered_append_Ready
          sent_count_append)
  next
    case False
    then show ?thesis
      using i Launch by (simp add: inv_def pc_inv_def main_step_def)
  qed
next
  case Collect
  show ?thesis
  proof (cases "resultChan s")
    case Nil
    then show ?thesis
      using i Collect rdy by (simp add: inv_def pc_inv_def main_step_def main_ready_def)
  next
    case (Cons c rest)
    then show ?thesis
      using i Collect by (simp add: inv_def pc_inv_def main_step_def)
  qed
next
  case Returned
  then show ?thesis using rdy by (simp add: main_ready_def)
qed

lemma inv_worker_step:
  assumes i: "inv res W q r s" and j: "j < length (workers s)" and rdy: "worker_ready W s j"
  shows "inv res W q r (worker_step res W j s)"
proof -
  obtain pts st where st: "workers s ! j = (pts, st)" by (cases "workers s ! j")
  have mem: "(pts, st) \<in> set (workers s)" using j st by (metis nth_mem)
  have notfin: "st \<noteq> Finished" using rdy st by (auto simp: worker_ready_def)
  have opn: "closer s \<noteq> Closed" "\<not> chanClosed s"
    using i mem notfin by (auto simp: inv_def)
  have pc: "pc s \<noteq> Returned" using i opn by (auto simp: inv_def pc_inv_def)
  have pcinv: "pc_inv W (s\<lparr>workers := (workers s)[j := x], resultChan := c, wg := g\<rparr>)" for x c g
    using i pc by (cases "pc s") (auto simp: inv_def pc_inv_def)
  have pcinv2: "pc_inv W (s\<lparr>workers := (workers s)[j := x], wg := g\<rparr>)" for x g
    using i pc by (cases "pc s") (auto simp: inv_def pc_inv_def)
  have pcinv3: "pc_inv W (s\<lparr>workers := (workers s)[j := x], resultChan := c\<rparr>)" for x c
    using i pc by (cases "pc s") (auto simp: inv_def pc_inv_def)
  have fst: "\<forall>k < length (workers s). fst ((workers s)[j := (pts, x)] ! k) = currentPoints q r (int k)" for x
    using i j st by (auto simp: inv_def nth_list_update)
  show ?thesis
  proof (cases st)
    case Ready
    have room: "int (length (resultChan s)) < W"
      using rdy st Ready opn by (simp add: worker_ready_def)
    show ?thesis
      using i j st Ready opn room pcinv3 fst
      by (simp add: inv_def worker_step_def pending_update delivered_update sent_count_update)
  next
    case Sent
    have "0 < pending (workers s)" using pending_pos [OF mem] Sent by simp
    then have "\<not> wg s - 1 < 0" using i by (simp add: inv_def)
    then show ?thesis
      using i j st Sent opn pcinv2 fst
      by (simp add: inv_def worker_step_def pending_update delivered_update sent_count_update)
  next
    case Finished
    then show ?thesis using notfin by simp
  qed
qed

lemma inv_closer_step:
  assumes i: "inv res W q r s" and rdy: "closer s = Waiting" "wg s = 0"
  shows "inv res W q r (closer_step s)"
proof -
  have fin: "\<forall>w \<in> set (workers s). snd w = Finished"
    using i rdy pending_zero [of "workers s"] by (auto simp: inv_def)
  have pc: "pc s = Collect" using i rdy by (cases "pc s") (auto simp: inv_def pc_inv_def)
  show ?thesis
    using i rdy fin pc by (simp add: inv_def pc_inv_def closer_step_def)
qed

lemma inv_step:
  assumes "inv res W q r s" "t \<in> set (runnable W s)"
  shows "inv res W q r (step res W q r t s)"
proof (cases t)
  case MainT
  then show ?thesis using assms inv_main_step [of res W q r s]
    by (auto simp: runnable_def split: if_splits)
next
  case (WorkerT j)
  then show ?thesis using assms inv_worker_step [of res W q r s j]
    by (auto simp: runnable_def split: if_splits)
next
  case CloserT
  then show ?thesis using assms inv_closer_step [of res W q r s]
    by (auto simp: runnable_def split: if_splits)
qed

lemma inv_progress:
  assumes i: "inv res W q r s" and pc: "pc s \<noteq> Returned"
  shows "runnable W s \<noteq> []"
proof (cases "main_ready s")
  case True
  then show ?thesis using i by (simp add: runnable_def inv_def)
next
  case False
  then have c: "pc s = Collect" "resultChan s = []" "\<not> chanClosed s"
    using pc by (cases "pc s"; simp add: main_ready_def)+
  then have w: "closer s = Waiting" "int (length (workers s)) = W"
    using i by (cases "closer s"; simp add: inv_def pc_inv_def)+
  show ?thesis
  proof (cases "wg s = 0")
    case True
    then show ?thesis using i w by (simp add: runnable_def inv_def)
  next
    case False
    then have "pending (workers s) \<noteq> 0" using i by (simp add: inv_def)
    then obtain w where w': "w \<in> set (workers s)" "snd w \<noteq> Finished"
      using pending_nonzero by blast
    then obtain j where j: "j < length (workers s)" "workers s ! j = w"
      by (auto simp: in_set_conv_nth)
    have "worker_ready W s j"
    proof (cases "snd w")
      case Ready
      then have "sent_count (workers s) < int (length (workers s))"
        using sent_count_less [OF w'(1)] by simp
      then show ?thesis using i j Ready w by (simp add: worker_ready_def inv_def)
    next
      case Sent
      then show ?thesis using j by (simp add: worker_ready_def)
    next
      case Finished
      then show ?thesis using w' by simp
    qed
    then have "j \<in> set (filter (worker_ready W s) [0..<length (workers s)])"
      using j by simp
    then have "filter (worker_ready W s) [0..<length (workers s)] \<noteq> []"
      by (metis empty_iff empty_set)
    then show ?thesis using i by (simp add: runnable_def inv_def)
  qed
qed

lemma run_inv:
  assumes "inv res W q r s"
  shows "inv res W q r (run res W q r sched k s) \<and> pc (run res W q r sched k s) = Returned"
  using assms
proof (induction res W q r sched k s rule: run.induct)
  case (1 res numThreads pointsPerWorker remainder sched k s)
  show ?case
  proof (cases "pc s = Returned")
    case True
    then show ?thesis using "1.prems" by (subst (1 2) run.simps) simp
  next
    case False
    have ne: "runnable numThreads s \<noteq> []" by (rule inv_progress [OF "1.prems" False])
    then have go: "\<not> (pc s = Returned \<or> runnable numThreads s = [])" using False by simp
    let ?t = "runnable numThreads s ! (sched k mod length (runnable numThreads s))"
    have "?t \<in> set (runnable numThreads s)" using ne by simp
    then have "inv res numThreads pointsPerWorker remainder
        (step res numThreads pointsPerWorker remainder ?t s)"
      by (rule inv_step [OF "1.prems"])
    from "1.IH" [OF go this] show ?thesis using go by (subst (1 2) run.simps) simp
  qed
qed

lemma inv_Returned_total:
  assumes i: "inv res W q r s" and pc: "pc s = Returned"
  shows "totalInside s = (\<Sum>j<nat W. res j (currentPoints q r (int j)))"
proof -
  have len: "length (workers s) = nat W" and c: "closer s = Closed" "resultChan s = []"
    using i pc by (auto simp: inv_def pc_inv_def)
  have fin: "\<forall>w \<in> set (workers s). snd w = Finished" using i c by (simp add: inv_def)
  have "totalInside s = delivered res (workers s)" using i c by (simp add: inv_def)
  also have "\<dots> = (\<Sum>j<length (workers s). res j (currentPoints q r (int j)))"
    unfolding delivered_def
  proof (rule sum.cong)
    fix j assume "j \<in> {..<length (workers s)}"
    then have j: "j < length (workers s)" by simp
    then have "snd (workers s ! j) = Finished" using fin by simp
    moreover have "fst (workers s ! j) = currentPoints q r (int j)"
      using i j by (simp add: inv_def)
    ultimately show "(if snd (workers s ! j) = Ready then 0 else res j (fst (workers s ! j)))
        = res j (currentPoints q r (int j))"
      by simp
  qed simp
  finally show ?thesis using len by simp
qed

subsection \<open>Facts about parallelPi\<close>

lemma parallelPi_total:
  assumes "1 \<le> W"
  shows "parallelPi rt env N W =
    Inr (pi_estimate rt
          (\<Sum>j<nat W. worker rt (workerNow env j) (currentPoints (go_quot N W) (go_rem N W) (int j))) N,
         sinceStart env)"
proof -
  let ?res = "\<lambda>j pts. worker rt (workerNow env j) pts"
  let ?s = "run ?res W (go_quot N W) (go_rem N W) (schedule env) 0 initial"
  have "inv ?res W (go_quot N W) (go_rem N W) initial"
    using assms by (intro inv_initial) simp
  then have i: "inv ?res W (go_quot N W) (go_rem N W) ?s" and pc: "pc ?s = Returned"
    using run_inv by blast+
  have f: "failure ?s = None" using i by (simp add: inv_def)
  have t: "totalInside ?s = (\<Sum>j<nat W. ?res j (currentPoints (go_quot N W) (go_rem N W) (int j)))"
    by (rule inv_Returned_total [OF i pc])
  show ?thesis
    using assms f pc t
    by (simp add: parallelPi_def go_div_def go_mod_def pi_estimate_def Let_def)
qed

lemma sum_list_worker_results:
  "sum_list (worker_results rt env (map (\<lambda>k. currentPoints q r (int k)) [0..<n]))
     = (\<Sum>j<n. worker rt (workerNow env j) (currentPoints q r (int j)))"
proof -
  have "worker_results rt env (map (\<lambda>k. currentPoints q r (int k)) [0..<n])
      = map (\<lambda>j. worker rt (workerNow env j) (currentPoints q r (int j))) [0..<n]"
    by (simp add: worker_results_def)
  then show ?thesis
    by (simp add: interv_sum_list_conv_sum_set_nat atLeast0LessThan)
qed

lemma worker_results_schedule [simp]:
  "worker_results rt (env\<lparr>schedule := sch\<rparr>) ps = worker_results rt env ps"
  by (simp add: worker_results_def)

text \<open>
  Claim C2. For \<open>N \<ge> 1\<close> and \<open>W \<ge> 1\<close> parallelPi returns, under every scheduler of its
  goroutines, the estimate \<open>4.0 * float64(total) / float64(N)\<close> where \<open>total\<close> is the sum
  of the counts its \<open>W\<close> workers report, worker \<open>j\<close> working on the \<open>j\<close>-th partition.
  The schedulers cover every order in which the results can arrive on the channel, and the
  right-hand side does not depend on the scheduler.
\<close>

theorem parallelPi_estimate:
  assumes "1 \<le> N" "1 \<le> W"
  shows "\<exists>ps. partition_sizes N W = Inr ps
          \<and> (\<forall>sch. parallelPi rt (env\<lparr>schedule := sch\<rparr>) N W =
                Inr (pi_estimate rt (sum_list (worker_results rt env ps)) N, sinceStart env))"
proof -
  let ?ps = "map (\<lambda>k. currentPoints (go_quot N W) (go_rem N W) (int k)) [0..<nat W]"
  have ps: "partition_sizes N W = Inr ?ps"
    using assms launch_loop_map [of 0 W "go_quot N W" "go_rem N W" "[]"]
    by (simp add: partition_sizes_def go_div_def go_mod_def)
  have "parallelPi rt (env\<lparr>schedule := sch\<rparr>) N W =
      Inr (pi_estimate rt (sum_list (worker_results rt env ?ps)) N, sinceStart env)" for sch
    using parallelPi_total [OF assms(2), of rt "env\<lparr>schedule := sch\<rparr>" N]
    by (simp add: sum_list_worker_results)
  with ps show ?thesis by blast
qed

text \<open>
  Claim C10. parallelPi divides by the worker count unguarded: with \<open>numThreads = 0\<close> the
  call panics with an integer division by zero, and with \<open>numThreads \<ge> 1\<close> it returns a
  result, so the panic cannot occur.
\<close>

theorem parallelPi_divide_by_zero:
  "parallelPi rt env N 0 = Inl DivideByZero
   \<and> (1 \<le> W \<longrightarrow> (\<exists>v. parallelPi rt env N W = Inr v))"
  using parallelPi_total [of W rt env N]
  by (simp add: parallelPi_def go_div_def)

end
